theory Spec2Isabelle
  imports Main "HOL-Library.Word"
begin

text \<open>
  A shallow embedding of \<open>velox/common/memory/Memory.cpp\<close>: the two byte allocators
  (heap-backed \<open>MemoryAllocator\<close> and mapping-backed \<open>MmapMemoryAllocator\<close>), the tree
  of \<open>MemoryPool\<close> objects and the size-class function \<open>MemoryPool::getPreferredSize\<close>.
\<close>

section \<open>Size-class policy: \<open>MemoryPool::getPreferredSize\<close>\<close>

text \<open>
  \<open>size_t\<close> is an unsigned 64-bit integer: \<open>+\<close> and \<open>*\<close> wrap around at \<open>2 ^ 64\<close>,
  \<open>div\<close> is exact integer division and \<open>\<le>\<close>, \<open><\<close> compare the unsigned values.
\<close>

type_synonym size_t = "64 word"

text \<open>
  Modelled from the spec: \<open>bits::countLeadingZeros\<close> is declared in
  \<open>velox/common/base/BitUtil.h\<close>, which is not part of the sources at hand. It is the
  number of zero bits above the most significant set bit of a 64-bit value, counted
  here from bit 63 downwards. The source only calls it on values of at least 8.
\<close>

fun clz_from :: "nat \<Rightarrow> size_t \<Rightarrow> nat" where
  "clz_from 0 w = 0"
| "clz_from (Suc n) w = (if bit w n then 0 else Suc (clz_from n w))"

definition countLeadingZeros :: "size_t \<Rightarrow> nat" where
  "countLeadingZeros w = clz_from 64 w"

text \<open>
  \<^verbatim>\<open>
  size_t MemoryPool::getPreferredSize(size_t size) {
    if (size < 8) { return 8; }
    int32_t bits = 63 - bits::countLeadingZeros(size);
    size_t lower = 1ULL << bits;
    if (lower == size) { return size; }
    if (lower + (lower / 2) >= size) { return lower + (lower / 2); }
    return lower * 2;
  }
  \<close>
\<close>

definition getPreferredSize :: "size_t \<Rightarrow> size_t" where
  "getPreferredSize sz =
     (if sz < 8 then 8
      else let bits = (63::int) - int (countLeadingZeros sz);
               lower = push_bit (nat bits) (1::size_t)
           in if lower = sz then sz
              else if lower + (lower div 2) \<ge> sz then lower + (lower div 2)
              else lower * 2)"

text \<open>
  The algorithm in the words of the specification, to be compared with the code. It
  works on the integers: \<open>lower\<close> is the largest power of two not above the requested
  size (exponents below 64 suffice, a \<open>size_t\<close> being below \<open>2 ^ 64\<close>), \<open>lower * 1.5\<close>
  is \<open>lower + lower / 2\<close>, and \<open>lower * 2\<close> is the integer product.
\<close>

definition largest_pow2_le :: "nat \<Rightarrow> nat" where
  "largest_pow2_le requested =
     Max ((\<lambda>k. 2 ^ k) ` {k \<in> {0..<64}. (2::nat) ^ k \<le> requested})"

definition preferredSize_spec :: "nat \<Rightarrow> nat" where
  "preferredSize_spec requested =
     (if requested < 8 then 8
      else let lower = largest_pow2_le requested
           in if requested = lower then requested
              else if requested \<le> lower + lower div 2 then lower + lower div 2
              else lower * 2)"

section \<open>Byte allocators\<close>

text \<open>
  \<open>int64_t\<close> values are 64-bit words read as two's complement numbers (\<open>sint\<close>); a
  conversion to \<open>size_t\<close>, as in the length argument of \<open>memcpy\<close> and \<open>memset\<close>, keeps
  the bits (\<open>unat\<close>). Addresses are natural numbers and 0 is \<open>nullptr\<close>.
\<close>

type_synonym int64_t = "64 word"
type_synonym uint16_t = "16 word"
type_synonym ptr = nat
type_synonym byte = "8 word"

text \<open>
  The mapping manager behind \<open>mappedMemory_\<close> and the platform allocator are external.
  What they answer is an input of the model: \<open>answers\<close> lists the addresses they will
  hand out to the coming requests, in order, with 0 for a request that fails; an
  exhausted list fails as well. Every request made to them is recorded in \<open>calls\<close>,
  with its arguments and, for an allocation, its result; a \<open>memcpy\<close> is recorded
  there too (\<open>Copy\<close>, with destination, source and length), which shows where it
  stands among the requests.
\<close>

datatype call =
    AllocateBytes int64_t ptr
  | FreeBytes ptr int64_t
  | AlignedAlloc uint16_t int64_t ptr
  | Free ptr
  | Copy ptr ptr nat

record world =
  mem :: "ptr \<Rightarrow> byte"
  calls :: "call list"
  answers :: "ptr list"

text \<open>
  Modelled from the spec: the mapping manager is not part of the sources at hand; it
  exposes \<open>allocateBytes(size)\<close>, returning a pointer or null, and
  \<open>freeBytes(pointer, size)\<close>.
\<close>

definition allocateBytes :: "world \<Rightarrow> int64_t \<Rightarrow> ptr \<times> world" where
  "allocateBytes w n =
     (case answers w of
        [] \<Rightarrow> (0, w\<lparr>calls := calls w @ [AllocateBytes n 0]\<rparr>)
      | p # ps \<Rightarrow> (p, w\<lparr>calls := calls w @ [AllocateBytes n p], answers := ps\<rparr>))"

definition freeBytes :: "world \<Rightarrow> ptr \<Rightarrow> int64_t \<Rightarrow> world" where
  "freeBytes w p n = w\<lparr>calls := calls w @ [FreeBytes p n]\<rparr>"

text \<open>The C library: \<open>aligned_alloc\<close>, \<open>free\<close>, \<open>memset\<close>, \<open>memcpy\<close> and \<open>std::min\<close>.\<close>

definition aligned_alloc :: "world \<Rightarrow> uint16_t \<Rightarrow> int64_t \<Rightarrow> ptr \<times> world" where
  "aligned_alloc w alignment n =
     (case answers w of
        [] \<Rightarrow> (0, w\<lparr>calls := calls w @ [AlignedAlloc alignment n 0]\<rparr>)
      | p # ps \<Rightarrow> (p, w\<lparr>calls := calls w @ [AlignedAlloc alignment n p], answers := ps\<rparr>))"

definition std_free :: "world \<Rightarrow> ptr \<Rightarrow> world" where
  "std_free w p = w\<lparr>calls := calls w @ [Free p]\<rparr>"

definition memset :: "world \<Rightarrow> ptr \<Rightarrow> byte \<Rightarrow> nat \<Rightarrow> world" where
  "memset w dst v n = w\<lparr>mem := (\<lambda>a. if dst \<le> a \<and> a < dst + n then v else mem w a)\<rparr>"

text \<open>
  \<open>memcpy\<close> has undefined behaviour, the value \<open>None\<close>, when one of its pointers is
  null (whatever the length) and when the length is \<open>2 ^ 63\<close> or more, which no object
  can hold: that is what a negative \<open>int64_t\<close> becomes as a \<open>size_t\<close>. Otherwise the
  bytes are copied; that they lie inside two blocks apart from each other is the
  caller's part (\<open>size\<close> is to be the size of the block at \<open>p\<close>) and the allocator's,
  which the model does not track.
\<close>

definition memcpy :: "world \<Rightarrow> ptr \<Rightarrow> ptr \<Rightarrow> nat \<Rightarrow> world option" where
  "memcpy w dst src n =
     (if dst = 0 \<or> src = 0 \<or> 2 ^ 63 \<le> n then None
      else Some (w\<lparr>mem := (\<lambda>a. if dst \<le> a \<and> a < dst + n then mem w (src + (a - dst))
                               else mem w a),
                   calls := calls w @ [Copy dst src n]\<rparr>))"

definition int64_min :: "int64_t \<Rightarrow> int64_t \<Rightarrow> int64_t" where
  "int64_min a b = (if sint b < sint a then b else a)"

subsection \<open>\<open>MmapMemoryAllocator\<close>\<close>

text \<open>
  Modelled from the spec: \<open>VELOX_UNSUPPORTED\<close> and \<open>VELOX_CHECK\<close> are macros of
  \<open>velox/common/base/Exceptions.h\<close>, which is not part of the sources at hand. Each
  throws an exception carrying its message; the first signals an unsupported
  operation, the second a violated invariant, two kinds of failure that a caller can
  tell apart.
\<close>

datatype velox_error = Unsupported string | CheckFailed string

definition MmapMemoryAllocator_alloc :: "world \<Rightarrow> int64_t \<Rightarrow> ptr \<times> world" where
  "MmapMemoryAllocator_alloc w n = allocateBytes w n"

definition MmapMemoryAllocator_free :: "world \<Rightarrow> ptr \<Rightarrow> int64_t \<Rightarrow> world" where
  "MmapMemoryAllocator_free w p n = (if p = 0 then w else freeBytes w p n)"

definition MmapMemoryAllocator_allocZeroFilled ::
    "world \<Rightarrow> int64_t \<Rightarrow> int64_t \<Rightarrow> ptr \<times> world" where
  "MmapMemoryAllocator_allocZeroFilled w numMembers sizeEach =
     (let totalBytes = numMembers * sizeEach;
          (allocResult, w1) = MmapMemoryAllocator_alloc w totalBytes
      in if allocResult \<noteq> 0
         then (allocResult, memset w1 allocResult 0 (unat totalBytes))
         else (allocResult, w1))"

definition MmapMemoryAllocator_allocAligned ::
    "world \<Rightarrow> uint16_t \<Rightarrow> int64_t \<Rightarrow> velox_error + ptr \<times> world" where
  "MmapMemoryAllocator_allocAligned w alignment n =
     Inl (Unsupported ''allocAligned is not supported for MmapMemoryAllocator.'')"

text \<open>
  \<^verbatim>\<open>
  void* MmapMemoryAllocator::realloc(void* p, int64_t size, int64_t newSize) {
    auto* newAlloc = alloc(newSize);
    if (p == nullptr || newAlloc == nullptr) { return newAlloc; }
    std::memcpy(newAlloc, p, std::min(size, newSize));
    free(p, size);
    return newAlloc;
  }
  \<close>
  The result is \<open>None\<close> when the call runs into undefined behaviour.
\<close>

definition MmapMemoryAllocator_realloc ::
    "world \<Rightarrow> ptr \<Rightarrow> int64_t \<Rightarrow> int64_t \<Rightarrow> (ptr \<times> world) option" where
  "MmapMemoryAllocator_realloc w p n newSize =
     (let (newAlloc, w1) = MmapMemoryAllocator_alloc w newSize
      in if p = 0 \<or> newAlloc = 0 then Some (newAlloc, w1)
         else case memcpy w1 newAlloc p (unat (int64_min n newSize)) of
                None \<Rightarrow> None
              | Some w2 \<Rightarrow> Some (newAlloc, MmapMemoryAllocator_free w2 p n))"

definition MmapMemoryAllocator_reallocAligned ::
    "world \<Rightarrow> ptr \<Rightarrow> uint16_t \<Rightarrow> int64_t \<Rightarrow> int64_t \<Rightarrow> velox_error + ptr \<times> world" where
  "MmapMemoryAllocator_reallocAligned w p alignment n newSize =
     Inl (Unsupported ''reallocAligned is not supported for MmapMemoryAllocator.'')"

subsection \<open>\<open>MemoryAllocator\<close>\<close>

text \<open>
  \<^verbatim>\<open>
  void* MemoryAllocator::reallocAligned(
      void* p, uint16_t alignment, int64_t size, int64_t newSize) {
    if (newSize <= 0) { return nullptr; }
    auto block = aligned_alloc(alignment, newSize);
    if (block) {
      memcpy(block, p, std::min(size, newSize));
      std::free(p);
    }
    return block;
  }
  \<close>
  There is no test of \<open>p\<close> before the copy.
\<close>

definition MemoryAllocator_reallocAligned ::
    "world \<Rightarrow> ptr \<Rightarrow> uint16_t \<Rightarrow> int64_t \<Rightarrow> int64_t \<Rightarrow> (ptr \<times> world) option" where
  "MemoryAllocator_reallocAligned w p alignment n newSize =
     (if sint newSize \<le> 0 then Some (0, w)
      else let (block, w1) = aligned_alloc w alignment newSize
           in if block \<noteq> 0
              then (case memcpy w1 block p (unat (int64_min n newSize)) of
                      None \<Rightarrow> None
                    | Some w2 \<Rightarrow> Some (block, std_free w2 p))
              else Some (block, w1))"

text \<open>
  Two concrete worlds for running the definitions: in the first the next allocation
  is answered with address 200 and the bytes 7 and 9 lie at addresses 100 and 101; in
  the second every allocation fails.
\<close>

definition example_world :: world where
  "example_world =
     \<lparr>mem = (\<lambda>a. if a = 100 then 7 else if a = 101 then 9 else 1), calls = [],
      answers = [200]\<rparr>"

definition exhausted_world :: world where
  "exhausted_world = example_world\<lparr>answers := []\<rparr>"

section \<open>Memory pools\<close>

text \<open>
  Pools are objects with identity: children are held as plain pointers, the parent as
  a shared pointer. A \<open>pool_ref\<close> is the address of a pool in an arena; a new object
  gets the next free address and a destroyed one leaves its slot empty.
\<close>

type_synonym pool_ref = nat

text \<open>
  Modelled from the spec: the usage tracker is external; its \<open>addChild()\<close> returns a
  new tracker derived from the one it is called on.
\<close>

datatype usage_tracker = RootTracker | ChildTracker usage_tracker

definition MemoryUsageTracker_addChild :: "usage_tracker \<Rightarrow> usage_tracker" where
  "MemoryUsageTracker_addChild t = ChildTracker t"

text \<open>
  Modelled from the spec: the quota \<open>cap_m\<close>, the capped flag \<open>capped_m\<close> and the
  tracker reference \<open>usageTracker_m\<close> live in the implementing subclass, which is not
  part of the sources at hand; the spec lists them as attributes of a pool. The fields
  \<open>name_m\<close>, \<open>parent_m\<close> and \<open>children_m\<close> are the members \<open>name_\<close>, \<open>parent_\<close> and
  \<open>children_\<close> that the source reads and writes (an identifier cannot end in an
  underscore here); \<open>children_m\<close> keeps the order of insertion.
\<close>

record MemoryPool =
  name_m :: string
  parent_m :: "pool_ref option"
  children_m :: "pool_ref list"
  cap_m :: int64_t
  capped_m :: bool
  usageTracker_m :: "usage_tracker option"

type_synonym pool_heap = "MemoryPool option list"

definition lookup :: "pool_heap \<Rightarrow> pool_ref \<Rightarrow> MemoryPool option" where
  "lookup h r = (if r < length h then h ! r else None)"

definition modify :: "pool_heap \<Rightarrow> pool_ref \<Rightarrow> (MemoryPool \<Rightarrow> MemoryPool) \<Rightarrow> pool_heap" where
  "modify h r f = (case lookup h r of Some p \<Rightarrow> h[r := Some (f p)] | None \<Rightarrow> h)"

definition make_shared :: "pool_heap \<Rightarrow> MemoryPool \<Rightarrow> pool_ref \<times> pool_heap" where
  "make_shared h p = (length h, h @ [Some p])"

definition destroy :: "pool_heap \<Rightarrow> pool_ref \<Rightarrow> pool_heap" where
  "destroy h r = h[r := None]"

definition children_of :: "pool_heap \<Rightarrow> pool_ref \<Rightarrow> pool_ref list" where
  "children_of h r = (case lookup h r of Some p \<Rightarrow> children_m p | None \<Rightarrow> [])"

definition parent_of :: "pool_heap \<Rightarrow> pool_ref \<Rightarrow> pool_ref option" where
  "parent_of h r = (case lookup h r of Some p \<Rightarrow> parent_m p | None \<Rightarrow> None)"

definition child_names :: "pool_heap \<Rightarrow> pool_ref \<Rightarrow> string list" where
  "child_names h r = List.map_filter (\<lambda>c. map_option name_m (lookup h c)) (children_of h r)"

text \<open>
  \<^verbatim>\<open>
  MemoryPool::MemoryPool(const std::string& name, std::shared_ptr<MemoryPool> parent)
      : name_(name), parent_(std::move(parent)) {}
  \<close>
\<close>

definition MemoryPool_ctor :: "string \<Rightarrow> pool_ref option \<Rightarrow> MemoryPool" where
  "MemoryPool_ctor name parent =
     \<lparr>name_m = name, parent_m = parent, children_m = [], cap_m = 0, capped_m = False,
      usageTracker_m = None\<rparr>"

text \<open>
  Modelled from the spec: \<open>isMemoryCapped\<close>, \<open>capMemoryAllocation\<close>,
  \<open>getMemoryUsageTracker\<close> and \<open>setMemoryUsageTracker\<close> are virtual members declared
  in \<open>Memory.h\<close> and implemented outside the sources at hand. The spec gives a pool a
  capped flag of its own, with no live link between a parent's flag and its
  children's, and an optional tracker reference.
\<close>

definition isMemoryCapped :: "pool_heap \<Rightarrow> pool_ref \<Rightarrow> bool" where
  "isMemoryCapped h r = (case lookup h r of Some p \<Rightarrow> capped_m p | None \<Rightarrow> False)"

definition capMemoryAllocation :: "pool_heap \<Rightarrow> pool_ref \<Rightarrow> pool_heap" where
  "capMemoryAllocation h r = modify h r (\<lambda>p. p\<lparr>capped_m := True\<rparr>)"

definition getMemoryUsageTracker :: "pool_heap \<Rightarrow> pool_ref \<Rightarrow> usage_tracker option" where
  "getMemoryUsageTracker h r =
     (case lookup h r of Some p \<Rightarrow> usageTracker_m p | None \<Rightarrow> None)"

definition setMemoryUsageTracker :: "pool_heap \<Rightarrow> pool_ref \<Rightarrow> usage_tracker \<Rightarrow> pool_heap" where
  "setMemoryUsageTracker h r t = modify h r (\<lambda>p. p\<lparr>usageTracker_m := Some t\<rparr>)"

text \<open>
  Modelled from the spec: \<open>genChild\<close> is a virtual member declared in \<open>Memory.h\<close> and
  implemented outside the sources at hand. It constructs the child object with the
  given name, parent and quota; by the spec, and by the comment in \<open>addChild\<close> (``Upon
  name collision we would throw and not modify the map''), it throws when the name is
  already borne by a child of the parent.
\<close>

definition genChild ::
    "pool_heap \<Rightarrow> pool_ref \<Rightarrow> string \<Rightarrow> int64_t \<Rightarrow> (velox_error + pool_ref) \<times> pool_heap" where
  "genChild h parent name cap =
     (if name \<in> set (child_names h parent)
      then (Inl (CheckFailed ''child name already exists''), h)
      else let (child, h1) = make_shared h ((MemoryPool_ctor name (Some parent))\<lparr>cap_m := cap\<rparr>)
           in (Inr child, h1))"

text \<open>
  \<^verbatim>\<open>
  std::shared_ptr<MemoryPool> MemoryPool::addChild(const std::string& name, int64_t cap) {
    folly::SharedMutex::WriteHolder guard{childrenMutex_};
    // Upon name collision we would throw and not modify the map.
    auto child = genChild(shared_from_this(), name, cap);
    if (isMemoryCapped()) { child->capMemoryAllocation(); }
    if (auto usageTracker = getMemoryUsageTracker()) {
      child->setMemoryUsageTracker(usageTracker->addChild());
    }
    children_.emplace_back(child.get());
    return child;
  }
  \<close>
  An exception leaves the heap as it is at the throw.
\<close>

definition addChild ::
    "pool_heap \<Rightarrow> pool_ref \<Rightarrow> string \<Rightarrow> int64_t \<Rightarrow> (velox_error + pool_ref) \<times> pool_heap" where
  "addChild h self name cap =
     (case genChild h self name cap of
        (Inl e, h1) \<Rightarrow> (Inl e, h1)
      | (Inr child, h1) \<Rightarrow>
          let h2 = (if isMemoryCapped h1 self then capMemoryAllocation h1 child else h1);
              h3 = (case getMemoryUsageTracker h2 self of
                      Some usageTracker \<Rightarrow>
                        setMemoryUsageTracker h2 child (MemoryUsageTracker_addChild usageTracker)
                    | None \<Rightarrow> h2);
              h4 = modify h3 self (\<lambda>p. p\<lparr>children_m := children_m p @ [child]\<rparr>)
          in (Inr child, h4))"

text \<open>
  \<^verbatim>\<open>
  void MemoryPool::dropChild(const MemoryPool* child) {
    folly::SharedMutex::WriteHolder guard{childrenMutex_};
    auto iter = std::find_if(children_.begin(), children_.end(),
        [child](const MemoryPool* e) { return e == child; });
    VELOX_CHECK(iter != children_.end());
    children_.erase(iter);
  }
  \<close>
\<close>

definition dropChild :: "pool_heap \<Rightarrow> pool_ref \<Rightarrow> pool_ref \<Rightarrow> (velox_error + unit) \<times> pool_heap" where
  "dropChild h self child =
     (if child \<notin> set (children_of h self)
      then (Inl (CheckFailed ''iter != children_.end()''), h)
      else (Inr (), modify h self (\<lambda>p. p\<lparr>children_m := remove1 child (children_m p)\<rparr>)))"

text \<open>
  \<^verbatim>\<open>
  MemoryPool::~MemoryPool() {
    VELOX_CHECK(children_.empty());
    if (parent_ != nullptr) { parent_->dropChild(this); }
  }
  \<close>
  After the body the object is gone. The release of its strong reference to the
  parent, which follows, is not modelled: reference counts are outside this embedding.
\<close>

definition MemoryPool_dtor :: "pool_heap \<Rightarrow> pool_ref \<Rightarrow> (velox_error + unit) \<times> pool_heap" where
  "MemoryPool_dtor h self =
     (if children_of h self \<noteq> [] then (Inl (CheckFailed ''children_.empty()''), h)
      else case parent_of h self of
             Some parent \<Rightarrow>
               (case dropChild h parent self of
                  (Inl e, h1) \<Rightarrow> (Inl e, h1)
                | (Inr u, h1) \<Rightarrow> (Inr (), destroy h1 self))
           | None \<Rightarrow> (Inr (), destroy h self))"

text \<open>A root pool without children, for concrete runs.\<close>

definition root_pool :: MemoryPool where
  "root_pool = MemoryPool_ctor ''root'' None"

text \<open>The heap after \<open>addChild("a", 10)\<close> on a lone root: the root at 0, the child at 1.\<close>

definition family :: pool_heap where
  "family =
     [Some (root_pool\<lparr>children_m := [1]\<rparr>),
      Some ((MemoryPool_ctor ''a'' (Some 0))\<lparr>cap_m := 10\<rparr>)]"

section \<open>Properties of the size-class policy\<close>

lemma bit_word_unat: "bit (w::size_t) n = odd (unat w div 2 ^ n)"
proof -
  have "bit (unat w) n = bit w n" by (simp add: bit_unsigned_iff)
  then show ?thesis by (simp add: bit_nat_def)
qed

lemma even_less_two: "even (x::nat) \<Longrightarrow> x < 2 \<Longrightarrow> x = 0"
  by (cases x) auto

lemma clz_from_bounds:
  "unat w < 2 ^ n \<Longrightarrow> w \<noteq> 0 \<Longrightarrow>
   clz_from n w < n \<and> 2 ^ (n - 1 - clz_from n w) \<le> unat w \<and> unat w < 2 ^ (n - clz_from n w)"
proof (induction n)
  case 0
  then show ?case by (simp add: unat_eq_0)
next
  case (Suc n)
  show ?case
  proof (cases "bit w n")
    case True
    then have "odd (unat w div 2 ^ n)" by (simp add: bit_word_unat)
    then have "0 < unat w div 2 ^ n" by (rule odd_pos)
    then have "2 ^ n \<le> unat w" by (simp add: div_greater_zero_iff)
    with True Suc.prems show ?thesis by simp
  next
    case False
    then have ev: "even (unat w div 2 ^ n)" by (simp add: bit_word_unat)
    have "unat w div 2 ^ n < 2" using Suc.prems(1) by (simp add: less_mult_imp_div_less)
    with ev have "unat w div 2 ^ n = 0" by (rule even_less_two)
    then have lt: "unat w < 2 ^ n" by (simp add: div_eq_0_iff)
    from Suc.IH [OF lt Suc.prems(2)] False show ?thesis
      by (simp add: Suc_diff_le less_imp_le)
  qed
qed

lemma countLeadingZeros_bounds:
  assumes "w \<noteq> 0"
  shows "countLeadingZeros w < 64"
    and "2 ^ (63 - countLeadingZeros w) \<le> unat w"
    and "unat w < 2 ^ (64 - countLeadingZeros w)"
proof -
  have "unat w < 2 ^ 64" using unsigned_less [of w] by simp
  from clz_from_bounds [OF this assms]
  show "countLeadingZeros w < 64" "2 ^ (63 - countLeadingZeros w) \<le> unat w"
    "unat w < 2 ^ (64 - countLeadingZeros w)"
    by (simp_all add: countLeadingZeros_def)
qed

lemma unat_lower: "n < 64 \<Longrightarrow> unat (push_bit n (1::size_t)) = 2 ^ n"
proof -
  assume "n < 64"
  then have "(2::nat) ^ n < 2 ^ 64" by (rule power_strict_increasing) simp
  then have lt: "(2::nat) ^ n < 18446744073709551616" by simp
  have "unat (push_bit n (1::size_t)) = take_bit LENGTH(64) (push_bit n (unat (1::size_t)))"
    by (rule unsigned_push_bit_eq)
  also have "\<dots> = 2 ^ n mod 2 ^ 64" by (simp add: take_bit_eq_mod push_bit_eq_mult)
  also have "\<dots> = 2 ^ n" using lt by simp
  finally show ?thesis .
qed

lemma bits_bounds:
  assumes "8 \<le> sz"
  shows "3 \<le> 63 - countLeadingZeros sz"
    and "2 ^ (63 - countLeadingZeros sz) \<le> unat sz"
    and "unat sz < 2 * 2 ^ (63 - countLeadingZeros sz)"
    and "nat (63 - int (countLeadingZeros sz)) = 63 - countLeadingZeros sz"
proof -
  from assms have nz: "sz \<noteq> 0" by auto
  note b = countLeadingZeros_bounds [OF nz]
  from b(1) have e: "64 - countLeadingZeros sz = Suc (63 - countLeadingZeros sz)" by simp
  from assms have "8 \<le> unat sz" by (simp add: word_le_nat_alt)
  with b(3) have "(2::nat) ^ 3 < 2 ^ (64 - countLeadingZeros sz)" by simp
  then have "3 < 64 - countLeadingZeros sz" by (simp only: power_strict_increasing_iff) 
  then show "3 \<le> 63 - countLeadingZeros sz" by simp
  show "2 ^ (63 - countLeadingZeros sz) \<le> unat sz" by (rule b(2))
  from b(3) show "unat sz < 2 * 2 ^ (63 - countLeadingZeros sz)" by (simp add: e)
  show "nat (63 - int (countLeadingZeros sz)) = 63 - countLeadingZeros sz" by simp
qed

lemma getPreferredSize_small: "sz < 8 \<Longrightarrow> getPreferredSize sz = 8"
  by (simp add: getPreferredSize_def)

lemma getPreferredSize_unat:
  assumes "8 \<le> sz"
  obtains b where "3 \<le> b" and "b \<le> 63" and "2 ^ b \<le> unat sz" and "unat sz < 2 * 2 ^ b"
    and "unat (getPreferredSize sz) =
          (if unat sz = 2 ^ b then unat sz
           else if unat sz \<le> 2 ^ b + 2 ^ b div 2 then 2 ^ b + 2 ^ b div 2
           else (2 * 2 ^ b) mod 2 ^ 64)"
proof -
  define b where "b = 63 - countLeadingZeros sz"
  define lower :: size_t where "lower = push_bit b 1"
  note bb = bits_bounds [OF assms, folded b_def]
  have b63: "b \<le> 63" by (simp add: b_def)
  then have "b < 64" by simp
  then have ul: "unat lower = 2 ^ b" unfolding lower_def by (rule unat_lower)
  have "(2::nat) ^ b \<le> 2 ^ 63" using b63 by (simp only: power_increasing_iff) 
  then have small: "(2::nat) ^ b + 2 ^ b div 2 < 2 ^ 64" by simp
  have ud: "unat (lower div 2) = 2 ^ b div 2" by (simp add: unat_div ul)
  have ua: "unat (lower + lower div 2) = 2 ^ b + 2 ^ b div 2"
    using small by (simp add: unat_add_lem [THEN iffD1] ul ud)
  have um: "unat (lower * 2) = (2 * 2 ^ b) mod 2 ^ 64"
    by (simp add: unat_word_ariths ul mult.commute)
  have eq: "(lower = sz) = (unat sz = 2 ^ b)"
    by (auto simp: word_unat_eq_iff ul)
  have le: "(sz \<le> lower + lower div 2) = (unat sz \<le> 2 ^ b + 2 ^ b div 2)"
    by (simp add: word_le_nat_alt ua)
  from assms have ns: "\<not> sz < 8" by simp
  have "getPreferredSize sz =
          (if lower = sz then sz
           else if sz \<le> lower + lower div 2 then lower + lower div 2 else lower * 2)"
    unfolding getPreferredSize_def Let_def bb(4) lower_def using ns by simp
  then have "unat (getPreferredSize sz) =
          (if unat sz = 2 ^ b then unat sz
           else if unat sz \<le> 2 ^ b + 2 ^ b div 2 then 2 ^ b + 2 ^ b div 2
           else (2 * 2 ^ b) mod 2 ^ 64)"
    using eq le ua um by simp
  then show thesis by (rule that [OF bb(1) b63 bb(2) bb(3)])
qed


lemma pow2_exp_le: "(2::nat) ^ j \<le> x \<Longrightarrow> x < 2 * 2 ^ k \<Longrightarrow> j \<le> k"
proof -
  assume "(2::nat) ^ j \<le> x" and "x < 2 * 2 ^ k"
  then have "(2::nat) ^ j < 2 ^ Suc k" by simp
  then have "j < Suc k" by (simp only: power_strict_increasing_iff)
  then show ?thesis by simp
qed

lemma pow2_ge8: "3 \<le> k \<Longrightarrow> (8::nat) \<le> 2 ^ k"
proof -
  assume "3 \<le> k"
  then have "(2::nat) ^ 3 \<le> 2 ^ k" by (rule power_increasing) simp
  then show ?thesis by simp
qed

lemma pow2_even: "3 \<le> k \<Longrightarrow> 2 * ((2::nat) ^ k div 2) = 2 ^ k"
  by (cases k) simp_all

lemma pow2_le_63: "k \<le> 63 \<Longrightarrow> (2::nat) ^ k \<le> 2 ^ 63"
  by (rule power_increasing) simp_all

lemma pow2_le_62: "k \<le> 62 \<Longrightarrow> (2::nat) ^ k \<le> 2 ^ 62"
  by (rule power_increasing) simp_all

text \<open>Upper bound, in the integers: holds for every size of at least 8.\<close>

lemma getPreferredSize_upper:
  assumes "8 \<le> sz"
  shows "unat (getPreferredSize sz) \<le> 2 * unat sz"
proof -
  from assms obtain b where b: "3 \<le> b" "2 ^ b \<le> unat sz"
    and r: "unat (getPreferredSize sz) =
          (if unat sz = 2 ^ b then unat sz
           else if unat sz \<le> 2 ^ b + 2 ^ b div 2 then 2 ^ b + 2 ^ b div 2
           else (2 * 2 ^ b) mod 2 ^ 64)"
    by (rule getPreferredSize_unat)
  have "(2 * 2 ^ b) mod 2 ^ 64 \<le> 2 * (2::nat) ^ b" by (rule mod_less_eq_dividend)
  with b r pow2_even [OF b(1)] show ?thesis by (auto split: if_splits)
qed

text \<open>Without overflow the product \<open>lower * 2\<close> is exact.\<close>

lemma getPreferredSize_unat_range:
  assumes "8 \<le> sz" and "unat sz \<le> 3 * 2 ^ 62"
  obtains b where "3 \<le> b" and "b \<le> 63" and "2 ^ b \<le> unat sz" and "unat sz < 2 * 2 ^ b"
    and "unat (getPreferredSize sz) =
          (if unat sz = 2 ^ b then unat sz
           else if unat sz \<le> 2 ^ b + 2 ^ b div 2 then 2 ^ b + 2 ^ b div 2
           else 2 * 2 ^ b)"
    and "unat sz \<le> 2 ^ b + 2 ^ b div 2 \<or> b \<le> 62"
proof -
  from assms(1) obtain b where b: "3 \<le> b" "b \<le> 63" "2 ^ b \<le> unat sz" "unat sz < 2 * 2 ^ b"
    and r: "unat (getPreferredSize sz) =
          (if unat sz = 2 ^ b then unat sz
           else if unat sz \<le> 2 ^ b + 2 ^ b div 2 then 2 ^ b + 2 ^ b div 2
           else (2 * 2 ^ b) mod 2 ^ 64)"
    by (rule getPreferredSize_unat)
  have c: "unat sz \<le> 2 ^ b + 2 ^ b div 2 \<or> b \<le> 62"
  proof (cases "b = 63")
    case True
    with assms(2) show ?thesis by simp
  next
    case False
    with b(2) show ?thesis by simp
  qed
  have "unat (getPreferredSize sz) =
          (if unat sz = 2 ^ b then unat sz
           else if unat sz \<le> 2 ^ b + 2 ^ b div 2 then 2 ^ b + 2 ^ b div 2
           else 2 * 2 ^ b)"
  proof (cases "unat sz \<le> 2 ^ b + 2 ^ b div 2")
    case True
    with r show ?thesis by simp
  next
    case False
    with c have "b \<le> 62" by simp
    then have "(2::nat) ^ b \<le> 2 ^ 62" by (rule pow2_le_62)
    then have "2 * (2::nat) ^ b < 2 ^ 64" by simp
    then have "(2 * (2::nat) ^ b) mod 2 ^ 64 = 2 * 2 ^ b" by simp
    with r show ?thesis by simp
  qed
  then show thesis using c by (rule that [OF b])
qed

lemma getPreferredSize_lower:
  assumes "unat sz \<le> 3 * 2 ^ 62"
  shows "unat sz \<le> unat (getPreferredSize sz)"
proof (cases "sz < 8")
  case True
  then have "unat sz < 8" by (simp add: word_less_nat_alt)
  with True show ?thesis by (simp add: getPreferredSize_small)
next
  case False
  then have "8 \<le> sz" by simp
  from this assms obtain b where "3 \<le> b" "unat sz < 2 * 2 ^ b"
    and "unat (getPreferredSize sz) =
          (if unat sz = 2 ^ b then unat sz
           else if unat sz \<le> 2 ^ b + 2 ^ b div 2 then 2 ^ b + 2 ^ b div 2
           else 2 * 2 ^ b)"
    by (rule getPreferredSize_unat_range)
  then show ?thesis by (auto split: if_splits)
qed


lemma getPreferredSize_pow2:
  assumes "8 \<le> sz" and "unat sz = 2 ^ k"
  shows "getPreferredSize sz = sz"
proof -
  from assms(1) obtain b where b: "2 ^ b \<le> unat sz" "unat sz < 2 * 2 ^ b"
    and r: "unat (getPreferredSize sz) =
          (if unat sz = 2 ^ b then unat sz
           else if unat sz \<le> 2 ^ b + 2 ^ b div 2 then 2 ^ b + 2 ^ b div 2
           else (2 * 2 ^ b) mod 2 ^ 64)"
    by (rule getPreferredSize_unat)
  have "k \<le> b" using assms(2) b(2) by (intro pow2_exp_le [of k "unat sz" b]) simp_all
  moreover have "b \<le> k" using assms(2) b(1) by (intro pow2_exp_le [of b "unat sz" k]) simp_all
  ultimately have "unat sz = 2 ^ b" using assms(2) by simp
  with r have "unat (getPreferredSize sz) = unat sz" by simp
  then show ?thesis by (simp add: word_unat_eq_iff)
qed

lemma getPreferredSize_mid:
  assumes "3 \<le> k" and "k \<le> 63" and "unat sz = 2 ^ k + 2 ^ k div 2"
  shows "getPreferredSize sz = sz"
proof -
  note e = pow2_even [OF assms(1)] and g = pow2_ge8 [OF assms(1)]
  from g assms(3) have "8 \<le> unat sz" by simp
  then have "8 \<le> sz" by (simp add: word_le_nat_alt)
  then obtain b where b: "2 ^ b \<le> unat sz" "unat sz < 2 * 2 ^ b"
    and r: "unat (getPreferredSize sz) =
          (if unat sz = 2 ^ b then unat sz
           else if unat sz \<le> 2 ^ b + 2 ^ b div 2 then 2 ^ b + 2 ^ b div 2
           else (2 * 2 ^ b) mod 2 ^ 64)"
    by (rule getPreferredSize_unat)
  have "k \<le> b" using assms(3) b(2) by (intro pow2_exp_le [of k "unat sz" b]) simp_all
  moreover have "unat sz < 2 * 2 ^ k" using assms(3) e g by linarith
  then have "b \<le> k" using b(1) by (intro pow2_exp_le [of b "unat sz" k])
  ultimately have "b = k" by simp
  with r assms(3) have "unat (getPreferredSize sz) = unat sz" by simp
  then show ?thesis by (simp add: word_unat_eq_iff)
qed

lemma getPreferredSize_idem:
  assumes "unat sz \<le> 3 * 2 ^ 62"
  shows "getPreferredSize (getPreferredSize sz) = getPreferredSize sz"
proof (cases "sz < 8")
  case True
  have "unat (8::size_t) = 2 ^ 3" by simp
  then have "getPreferredSize 8 = 8" by (intro getPreferredSize_pow2 [of 8 3]) simp_all
  with True show ?thesis by (simp add: getPreferredSize_small)
next
  case False
  then have ge: "8 \<le> sz" by simp
  from ge assms obtain b where b: "3 \<le> b" "b \<le> 63" "2 ^ b \<le> unat sz"
    and r: "unat (getPreferredSize sz) =
          (if unat sz = 2 ^ b then unat sz
           else if unat sz \<le> 2 ^ b + 2 ^ b div 2 then 2 ^ b + 2 ^ b div 2
           else 2 * 2 ^ b)"
    and c: "unat sz \<le> 2 ^ b + 2 ^ b div 2 \<or> b \<le> 62"
    by (rule getPreferredSize_unat_range)
  note g = pow2_ge8 [OF b(1)]
  consider (pow) "unat sz = 2 ^ b"
    | (mid) "unat sz \<noteq> 2 ^ b" "unat sz \<le> 2 ^ b + 2 ^ b div 2"
    | (up) "unat sz \<noteq> 2 ^ b" "\<not> unat sz \<le> 2 ^ b + 2 ^ b div 2" by blast
  then show ?thesis
  proof cases
    case pow
    with ge have "getPreferredSize sz = sz" by (intro getPreferredSize_pow2 [of sz b])
    then show ?thesis by simp
  next
    case mid
    with r have "unat (getPreferredSize sz) = 2 ^ b + 2 ^ b div 2" by simp
    with b show ?thesis by (intro getPreferredSize_mid [of b])
  next
    case up
    with r have u: "unat (getPreferredSize sz) = 2 ^ Suc b" by simp
    with g have "8 \<le> unat (getPreferredSize sz)" by simp
    then have "8 \<le> getPreferredSize sz" by (simp add: word_le_nat_alt)
    with u show ?thesis by (intro getPreferredSize_pow2 [of _ "Suc b"])
  qed
qed

lemma getPreferredSize_mono:
  assumes "a \<le> b" and "unat b \<le> 3 * 2 ^ 62"
  shows "getPreferredSize a \<le> getPreferredSize b"
proof -
  from assms(1) have ab: "unat a \<le> unat b" by (simp add: word_le_nat_alt)
  with assms(2) have ra: "unat a \<le> 3 * 2 ^ 62" by simp
  have "unat (getPreferredSize a) \<le> unat (getPreferredSize b)"
  proof (cases "a < 8")
    case True
    note a8 = this
    show ?thesis
    proof (cases "b < 8")
      case True
      with a8 show ?thesis by (simp add: getPreferredSize_small)
    next
      case False
      then have "8 \<le> unat b" by (simp add: word_le_nat_alt not_less)
      with getPreferredSize_lower [OF assms(2)] a8 show ?thesis
        by (simp add: getPreferredSize_small)
    qed
  next
    case False
    then have ga: "8 \<le> a" by simp
    with assms(1) have gb: "8 \<le> b" by simp
    from ga ra obtain i where i: "3 \<le> i" "2 ^ i \<le> unat a" "unat a < 2 * 2 ^ i"
      and pa: "unat (getPreferredSize a) =
          (if unat a = 2 ^ i then unat a
           else if unat a \<le> 2 ^ i + 2 ^ i div 2 then 2 ^ i + 2 ^ i div 2
           else 2 * 2 ^ i)"
      by (rule getPreferredSize_unat_range)
    from gb assms(2) obtain j where j: "3 \<le> j" "2 ^ j \<le> unat b" "unat b < 2 * 2 ^ j"
      and pb: "unat (getPreferredSize b) =
          (if unat b = 2 ^ j then unat b
           else if unat b \<le> 2 ^ j + 2 ^ j div 2 then 2 ^ j + 2 ^ j div 2
           else 2 * 2 ^ j)"
      by (rule getPreferredSize_unat_range)
    have "2 ^ i \<le> unat b" using i(2) ab by simp
    then have ij: "i \<le> j" using j(3) by (rule pow2_exp_le)
    show ?thesis
    proof (cases "i = j")
      case True
      with pa pb ab i j pow2_even [OF j(1)] show ?thesis by (auto split: if_splits)
    next
      case False
      with ij have "Suc i \<le> j" by simp
      then have "(2::nat) ^ Suc i \<le> 2 ^ j" by (rule power_increasing) simp
      then have le: "2 * (2::nat) ^ i \<le> 2 ^ j" by simp
      have "unat (getPreferredSize a) \<le> 2 * 2 ^ i"
        using pa i pow2_even [OF i(1)] by (auto split: if_splits)
      moreover have "2 ^ j \<le> unat (getPreferredSize b)"
        using pb j by (auto split: if_splits)
      ultimately show ?thesis using le by linarith
    qed
  qed
  then show ?thesis by (simp add: word_le_nat_alt)
qed


lemma largest_pow2_le_eq:
  assumes "b < 64" and "2 ^ b \<le> n" and "n < 2 * 2 ^ b"
  shows "largest_pow2_le n = 2 ^ b"
  unfolding largest_pow2_le_def
proof (rule Max_eqI)
  show "finite ((\<lambda>k. (2::nat) ^ k) ` {k \<in> {0..<64}. (2::nat) ^ k \<le> n})" by simp
next
  fix y assume "y \<in> (\<lambda>k. (2::nat) ^ k) ` {k \<in> {0..<64}. (2::nat) ^ k \<le> n}"
  then obtain k where k: "(2::nat) ^ k \<le> n" "y = 2 ^ k" by auto
  from k(1) assms(3) have "k \<le> b" by (rule pow2_exp_le)
  then have "(2::nat) ^ k \<le> 2 ^ b" by (rule power_increasing) simp
  then show "y \<le> 2 ^ b" by (simp add: k(2))
next
  from assms(1,2) show "2 ^ b \<in> (\<lambda>k. (2::nat) ^ k) ` {k \<in> {0..<64}. (2::nat) ^ k \<le> n}"
    by auto
qed

lemma getPreferredSize_refines:
  assumes "unat sz \<le> 3 * 2 ^ 62"
  shows "unat (getPreferredSize sz) = preferredSize_spec (unat sz)"
proof (cases "sz < 8")
  case True
  then have "unat sz < 8" by (simp add: word_less_nat_alt)
  with True show ?thesis by (simp add: getPreferredSize_small preferredSize_spec_def)
next
  case False
  then have ge: "8 \<le> sz" by simp
  then have n8: "\<not> unat sz < 8" by (simp add: word_le_nat_alt)
  from ge assms obtain b where b: "b \<le> 63" "2 ^ b \<le> unat sz" "unat sz < 2 * 2 ^ b"
    and r: "unat (getPreferredSize sz) =
          (if unat sz = 2 ^ b then unat sz
           else if unat sz \<le> 2 ^ b + 2 ^ b div 2 then 2 ^ b + 2 ^ b div 2
           else 2 * 2 ^ b)"
    by (rule getPreferredSize_unat_range)
  from b(1) have "b < 64" by simp
  from this b(2,3) have "largest_pow2_le (unat sz) = 2 ^ b" by (rule largest_pow2_le_eq)
  with r n8 show ?thesis by (simp add: preferredSize_spec_def Let_def)
qed

lemma preferredSize_spec_max: "preferredSize_spec 18446744073709551615 = 18446744073709551616"
proof -
  have "largest_pow2_le 18446744073709551615 = 2 ^ 63"
    by (rule largest_pow2_le_eq) simp_all
  then show ?thesis by (simp add: preferredSize_spec_def Let_def)
qed

lemma getPreferredSize_overflow:
  assumes "3 * 2 ^ 62 < unat sz"
  shows "getPreferredSize sz = 0"
proof -
  from assms have "8 \<le> unat sz" by simp
  then have "8 \<le> sz" by (simp add: word_le_nat_alt)
  then obtain b where b: "3 \<le> b" "b \<le> 63" "2 ^ b \<le> unat sz" "unat sz < 2 * 2 ^ b"
    and r: "unat (getPreferredSize sz) =
          (if unat sz = 2 ^ b then unat sz
           else if unat sz \<le> 2 ^ b + 2 ^ b div 2 then 2 ^ b + 2 ^ b div 2
           else (2 * 2 ^ b) mod 2 ^ 64)"
    by (rule getPreferredSize_unat)
  have "b = 63"
  proof (rule ccontr)
    assume "b \<noteq> 63"
    with b(2) have "b \<le> 62" by simp
    then have "(2::nat) ^ b \<le> 2 ^ 62" by (rule pow2_le_62)
    with b(4) assms show False by simp
  qed
  with r assms have "unat (getPreferredSize sz) = 0" by simp
  then show ?thesis by (simp add: unat_eq_0)
qed

subsection \<open>Claims about the size-class policy\<close>

lemma getPreferredSize_examples:
  "getPreferredSize 5 = 8" "getPreferredSize 8 = 8" "getPreferredSize 9 = 12"
  "getPreferredSize 12 = 12" "getPreferredSize 13 = 16"
  by code_simp+

lemma getPreferredSize_small_examples:
  "getPreferredSize 3 = 8" "getPreferredSize 16 = 16"
  by code_simp+

lemma getPreferredSize_max: "getPreferredSize 18446744073709551615 = 0"
  by code_simp

text \<open>
  Claim C1, as amended. On every requested size up to \<open>3 * 2 ^ 62\<close>,
  \<open>getPreferredSize\<close> returns what the size-class algorithm of the specification
  returns: 8 below 8; otherwise, with \<open>lower\<close> the largest power of two not above the
  request, the request itself when it equals \<open>lower\<close>, \<open>lower + lower / 2\<close> when the
  request is at most that, and \<open>lower * 2\<close> otherwise. In particular the sizes 5, 8, 9,
  12 and 13 yield 8, 8, 12, 12 and 16.
\<close>

theorem getPreferredSize_algorithm:
  "(unat sz \<le> 3 * 2 ^ 62 \<longrightarrow> unat (getPreferredSize sz) = preferredSize_spec (unat sz)) \<and>
   getPreferredSize 5 = 8 \<and> getPreferredSize 8 = 8 \<and> getPreferredSize 9 = 12 \<and>
   getPreferredSize 12 = 12 \<and> getPreferredSize 13 = 16"
  using getPreferredSize_refines [of sz] getPreferredSize_examples by blast

theorem getPreferredSize_algorithm_witness:
  "preferredSize_spec 13 = 16 \<and> preferredSize_spec 5 = 8"
proof -
  have "unat (13::size_t) \<le> 3 * 2 ^ 62" by simp
  with getPreferredSize_algorithm [of 13]
  have "unat (getPreferredSize 13) = preferredSize_spec (unat (13::size_t))" by blast
  moreover have "getPreferredSize 13 = 16" by (rule getPreferredSize_examples)
  ultimately have a: "preferredSize_spec 13 = 16" by simp
  have "unat (5::size_t) \<le> 3 * 2 ^ 62" by simp
  with getPreferredSize_algorithm [of 5]
  have "unat (getPreferredSize 5) = preferredSize_spec (unat (5::size_t))" by blast
  moreover have "getPreferredSize 5 = 8" by (rule getPreferredSize_examples)
  ultimately have b: "preferredSize_spec 5 = 8" by simp
  from a b show ?thesis by simp
qed

text \<open>
  For every size, as the claim is stated, the equation fails at the largest \<open>size_t\<close>
  value: the algorithm of the specification gives \<open>2 ^ 64\<close>, the next power of two,
  and the code gives 0, the product \<open>lower * 2\<close> having wrapped around.
\<close>

theorem getPreferredSize_algorithm_counterexample:
  "unat (getPreferredSize 18446744073709551615)
     \<noteq> preferredSize_spec (unat (18446744073709551615::size_t)) \<and>
   getPreferredSize 18446744073709551615 = 0 \<and>
   preferredSize_spec 18446744073709551615 = 18446744073709551616"
  by (simp add: getPreferredSize_max preferredSize_spec_max)

text \<open>
  Claim C2, as amended. For every size up to \<open>3 * 2 ^ 62\<close> the preferred size is at
  least the size; for every size of at least 4 the preferred size is at most twice the
  size (compared as integers); and every exact power of two of at least 8 is its own
  preferred size. Below 4 the result 8 exceeds twice the size, and above
  \<open>3 * 2 ^ 62\<close> the product \<open>lower * 2\<close> does not fit into \<open>size_t\<close>.
\<close>

theorem getPreferredSize_bounds:
  "(unat sz \<le> 3 * 2 ^ 62 \<longrightarrow> sz \<le> getPreferredSize sz) \<and>
   (4 \<le> sz \<longrightarrow> unat (getPreferredSize sz) \<le> 2 * unat sz) \<and>
   (8 \<le> sz \<and> (\<exists>k. unat sz = 2 ^ k) \<longrightarrow> getPreferredSize sz = sz)"
proof (intro conjI impI)
  assume "unat sz \<le> 3 * 2 ^ 62"
  then have "unat sz \<le> unat (getPreferredSize sz)" by (rule getPreferredSize_lower)
  then show "sz \<le> getPreferredSize sz" by (simp add: word_le_nat_alt)
next
  assume four: "4 \<le> sz"
  show "unat (getPreferredSize sz) \<le> 2 * unat sz"
  proof (cases "sz < 8")
    case True
    from four have "4 \<le> unat sz" by (simp add: word_le_nat_alt)
    with True show ?thesis by (simp add: getPreferredSize_small)
  next
    case False
    then have "8 \<le> sz" by simp
    then show ?thesis by (rule getPreferredSize_upper)
  qed
next
  assume "8 \<le> sz \<and> (\<exists>k. unat sz = 2 ^ k)"
  then obtain k where "8 \<le> sz" and "unat sz = 2 ^ k" by blast
  then show "getPreferredSize sz = sz" by (rule getPreferredSize_pow2)
qed

theorem getPreferredSize_bounds_witness:
  "(9::size_t) \<le> getPreferredSize 9 \<and> unat (getPreferredSize 9) \<le> 2 * unat (9::size_t) \<and>
   getPreferredSize 16 = 16"
proof -
  have "\<exists>k. unat (16::size_t) = 2 ^ k" by (rule exI [of _ 4]) simp
  with getPreferredSize_bounds [of 9] getPreferredSize_bounds [of 16] show ?thesis by simp
qed

text \<open>
  The claim as stated fails at both ends: size 3 is rounded up to 8, more than twice
  3, and the largest \<open>size_t\<close> value is mapped to 0.
\<close>

theorem getPreferredSize_bounds_counterexample:
  "\<not> unat (getPreferredSize 3) \<le> 2 * unat (3::size_t) \<and>
   \<not> (18446744073709551615::size_t) \<le> getPreferredSize 18446744073709551615"
  by (simp add: getPreferredSize_small_examples getPreferredSize_max)

text \<open>
  Claim C10, as amended. On sizes up to \<open>3 * 2 ^ 62\<close> the function is idempotent and
  monotone: applying it twice gives the same result as applying it once, and a larger
  request never gets a smaller preferred size.
\<close>

theorem getPreferredSize_idempotent_monotone:
  "(unat sz \<le> 3 * 2 ^ 62 \<longrightarrow>
      getPreferredSize (getPreferredSize sz) = getPreferredSize sz) \<and>
   (a \<le> b \<and> unat b \<le> 3 * 2 ^ 62 \<longrightarrow> getPreferredSize a \<le> getPreferredSize b)"
  using getPreferredSize_idem [of sz] getPreferredSize_mono [of a b] by blast

theorem getPreferredSize_idempotent_monotone_witness:
  "getPreferredSize (getPreferredSize 9) = getPreferredSize 9 \<and>
   getPreferredSize 9 \<le> getPreferredSize 13"
  using getPreferredSize_idempotent_monotone [of 9 9 13] by simp

text \<open>
  For every size, as the claim is stated, both properties fail at the largest
  \<open>size_t\<close> value: its preferred size is 0, whose preferred size is 8, and the smaller
  request 8 gets the larger result.
\<close>

theorem getPreferredSize_idempotent_monotone_counterexample:
  "getPreferredSize (getPreferredSize 18446744073709551615)
     \<noteq> getPreferredSize 18446744073709551615 \<and>
   (8::size_t) \<le> 18446744073709551615 \<and>
   \<not> getPreferredSize 8 \<le> getPreferredSize 18446744073709551615"
proof -
  have "getPreferredSize 0 = 8" by (simp add: getPreferredSize_small)
  then show ?thesis by (simp add: getPreferredSize_max getPreferredSize_examples)
qed

section \<open>Properties of the allocators\<close>

lemma allocateBytes_cases:
  "allocateBytes w n = (q, w1) \<Longrightarrow>
     mem w1 = mem w \<and> calls w1 = calls w @ [AllocateBytes n q]"
  by (auto simp: allocateBytes_def split: list.splits)

lemma aligned_alloc_cases:
  "aligned_alloc w al n = (q, w1) \<Longrightarrow>
     mem w1 = mem w \<and> calls w1 = calls w @ [AlignedAlloc al n q]"
  by (auto simp: aligned_alloc_def split: list.splits)

lemma example_alloc:
  "MmapMemoryAllocator_alloc example_world n =
     (200, example_world\<lparr>calls := [AllocateBytes n 200], answers := []\<rparr>)"
  by (simp add: MmapMemoryAllocator_alloc_def allocateBytes_def example_world_def)

lemma exhausted_alloc:
  "MmapMemoryAllocator_alloc exhausted_world n =
     (0, exhausted_world\<lparr>calls := [AllocateBytes n 0]\<rparr>)"
  by (simp add: MmapMemoryAllocator_alloc_def allocateBytes_def example_world_def
      exhausted_world_def)

lemma example_aligned_alloc:
  "aligned_alloc example_world al n =
     (200, example_world\<lparr>calls := [AlignedAlloc al n 200], answers := []\<rparr>)"
  by (simp add: aligned_alloc_def example_world_def)

lemma exhausted_aligned_alloc:
  "aligned_alloc exhausted_world al n = (0, exhausted_world\<lparr>calls := [AlignedAlloc al n 0]\<rparr>)"
  by (simp add: aligned_alloc_def example_world_def exhausted_world_def)

lemma unat_sint: "0 \<le> sint (a::int64_t) \<Longrightarrow> int (unat a) = sint a"
proof -
  assume nn: "0 \<le> sint a"
  have "sint a < 2 ^ 63" using sint_lt [of a] by simp
  then have lt: "sint a < 2 ^ 64" by simp
  have "uint a = take_bit 64 (sint a)" using uint_sint [of a] by simp
  also from nn lt have "\<dots> = sint a" by (rule take_bit_int_eq_self)
  finally show ?thesis by simp
qed

text \<open>
  On sizes that are not negative, the length handed to \<open>memcpy\<close> is the smaller of
  the two sizes, as a number of bytes, and it is below \<open>2 ^ 63\<close>.
\<close>

lemma int64_min_length:
  assumes "0 \<le> sint a" and "0 \<le> sint b"
  shows "unat (int64_min a b) = nat (min (sint a) (sint b))"
    and "unat (int64_min a b) < 2 ^ 63"
proof -
  have m: "sint (int64_min a b) = min (sint a) (sint b)"
    by (simp add: int64_min_def min_def)
  with assms have nn: "0 \<le> sint (int64_min a b)" by simp
  from unat_sint [OF nn] have e: "int (unat (int64_min a b)) = sint (int64_min a b)" .
  then have "nat (int (unat (int64_min a b))) = nat (sint (int64_min a b))" by (simp only:)
  then show "unat (int64_min a b) = nat (min (sint a) (sint b))" by (simp only: nat_int m)
  have "sint (int64_min a b) < 9223372036854775808" using sint_lt [of "int64_min a b"] by simp
  with e have "int (unat (int64_min a b)) < 9223372036854775808" by linarith
  then have "unat (int64_min a b) < 9223372036854775808" by linarith
  then show "unat (int64_min a b) < 2 ^ 63" by simp
qed

text \<open>
  Claim C3, as amended. Let \<open>alloc(newSize)\<close> return \<open>q\<close>. If \<open>p\<close> is null or the
  allocation failed (\<open>q\<close> is null), \<open>MmapMemoryAllocator::realloc(p, size, newSize)\<close> is
  the plain \<open>alloc(newSize)\<close>, in its result and in its effects: nothing is copied and
  nothing is freed, so after a failed allocation the result is null, the only request
  made is the allocation itself and \<open>p\<close> is still allocated. Otherwise, for sizes that
  are not negative, the call returns \<open>q\<close> after three steps in this order: the
  allocation of \<open>newSize\<close> bytes, the copy of the first \<open>min(size, newSize)\<close> bytes of the
  old block to the new one, all other memory being unchanged, and the release of \<open>p\<close>
  with its original size.
\<close>

theorem MmapMemoryAllocator_realloc_spec:
  assumes "MmapMemoryAllocator_alloc w newSize = (q, w1)"
  shows "(p = 0 \<or> q = 0 \<longrightarrow>
        MmapMemoryAllocator_realloc w p n newSize
          = Some (MmapMemoryAllocator_alloc w newSize)) \<and>
     (q = 0 \<longrightarrow>
        MmapMemoryAllocator_realloc w p n newSize = Some (0, w1) \<and>
        calls w1 = calls w @ [AllocateBytes newSize 0] \<and> mem w1 = mem w) \<and>
     (p \<noteq> 0 \<and> q \<noteq> 0 \<and> 0 \<le> sint n \<and> 0 \<le> sint newSize \<longrightarrow>
        (\<exists>w'. MmapMemoryAllocator_realloc w p n newSize = Some (q, w') \<and>
           calls w' = calls w @ [AllocateBytes newSize q,
                                 Copy q p (nat (min (sint n) (sint newSize))),
                                 FreeBytes p n] \<and>
           answers w' = answers w1 \<and>
           (\<forall>a. mem w' a =
                 (if q \<le> a \<and> a < q + nat (min (sint n) (sint newSize))
                  then mem w (p + (a - q)) else mem w a))))"
proof -
  from assms have a: "allocateBytes w newSize = (q, w1)"
    by (simp add: MmapMemoryAllocator_alloc_def)
  note c = allocateBytes_cases [OF a]
  have null: "MmapMemoryAllocator_realloc w p n newSize = Some (q, w1)" if "p = 0 \<or> q = 0"
    using that assms by (auto simp: MmapMemoryAllocator_realloc_def)
  have copy: "\<exists>w'. MmapMemoryAllocator_realloc w p n newSize = Some (q, w') \<and>
           calls w' = calls w @ [AllocateBytes newSize q,
                                 Copy q p (nat (min (sint n) (sint newSize))),
                                 FreeBytes p n] \<and>
           answers w' = answers w1 \<and>
           (\<forall>a. mem w' a =
                 (if q \<le> a \<and> a < q + nat (min (sint n) (sint newSize))
                  then mem w (p + (a - q)) else mem w a))"
    if h: "p \<noteq> 0" "q \<noteq> 0" "0 \<le> sint n" "0 \<le> sint newSize"
  proof -
    note l = int64_min_length [OF h(3) h(4)]
    from l(2) have nl: "\<not> (2::nat) ^ 63 \<le> unat (int64_min n newSize)" by simp
    show ?thesis
      using assms c h(1,2) nl
      by (simp add: MmapMemoryAllocator_realloc_def MmapMemoryAllocator_free_def
          freeBytes_def memcpy_def l(1))
  qed
  from null copy assms c show ?thesis by auto
qed

theorem MmapMemoryAllocator_realloc_spec_witness:
  "map_option fst (MmapMemoryAllocator_realloc example_world 100 2 4) = Some 200 \<and>
   map_option (\<lambda>r. calls (snd r)) (MmapMemoryAllocator_realloc example_world 100 2 4)
     = Some [AllocateBytes 4 200, Copy 200 100 2, FreeBytes 100 2] \<and>
   map_option (\<lambda>r. map (mem (snd r)) [200, 201, 202])
       (MmapMemoryAllocator_realloc example_world 100 2 4) = Some [7, 9, 1] \<and>
   map_option (\<lambda>r. calls (snd r)) (MmapMemoryAllocator_realloc example_world 100 4 1)
     = Some [AllocateBytes 1 200, Copy 200 100 1, FreeBytes 100 4] \<and>
   map_option (\<lambda>r. map (mem (snd r)) [200, 201, 202])
       (MmapMemoryAllocator_realloc example_world 100 4 1) = Some [7, 1, 1] \<and>
   MmapMemoryAllocator_realloc example_world 0 2 4
     = Some (MmapMemoryAllocator_alloc example_world 4) \<and>
   MmapMemoryAllocator_realloc exhausted_world 100 2 4
     = Some (0, exhausted_world\<lparr>calls := [AllocateBytes 4 0]\<rparr>)"
proof -
  have grow: "(100::ptr) \<noteq> 0 \<and> (200::ptr) \<noteq> 0 \<and> 0 \<le> sint (2::int64_t) \<and> 0 \<le> sint (4::int64_t)"
    by simp
  have shrink: "(100::ptr) \<noteq> 0 \<and> (200::ptr) \<noteq> 0 \<and> 0 \<le> sint (4::int64_t) \<and> 0 \<le> sint (1::int64_t)"
    by simp
  from MmapMemoryAllocator_realloc_spec [OF example_alloc, of 100 2 4] grow
  obtain w' where g: "MmapMemoryAllocator_realloc example_world 100 2 4 = Some (200, w')"
    "calls w' = calls example_world @ [AllocateBytes 4 200,
        Copy 200 100 (nat (min (sint (2::int64_t)) (sint (4::int64_t)))), FreeBytes 100 2]"
    "\<forall>a. mem w' a = (if 200 \<le> a \<and> a < 200 + nat (min (sint (2::int64_t)) (sint (4::int64_t)))
                  then mem example_world (100 + (a - 200)) else mem example_world a)"
    by blast
  from MmapMemoryAllocator_realloc_spec [OF example_alloc, of 100 4 1] shrink
  obtain v' where s: "MmapMemoryAllocator_realloc example_world 100 4 1 = Some (200, v')"
    "calls v' = calls example_world @ [AllocateBytes 1 200,
        Copy 200 100 (nat (min (sint (4::int64_t)) (sint (1::int64_t)))), FreeBytes 100 4]"
    "\<forall>a. mem v' a = (if 200 \<le> a \<and> a < 200 + nat (min (sint (4::int64_t)) (sint (1::int64_t)))
                  then mem example_world (100 + (a - 200)) else mem example_world a)"
    by blast
  have n: "MmapMemoryAllocator_realloc example_world 0 2 4
     = Some (MmapMemoryAllocator_alloc example_world 4)"
    using MmapMemoryAllocator_realloc_spec [OF example_alloc, of 0 2 4] by simp
  have f: "MmapMemoryAllocator_realloc exhausted_world 100 2 4
     = Some (0, exhausted_world\<lparr>calls := [AllocateBytes 4 0]\<rparr>)"
    using MmapMemoryAllocator_realloc_spec [OF exhausted_alloc, of 100 2 4]
    by (simp add: exhausted_alloc)
  from g s n f show ?thesis by (simp add: example_world_def)
qed

text \<open>
  For every size, as the claim is stated, the call has no defined outcome when the
  old size is negative: for size \<open>-1\<close> (the word \<open>2 ^ 64 - 1\<close>) the length handed to
  \<open>memcpy\<close> is \<open>2 ^ 64 - 1\<close> bytes.
\<close>

theorem MmapMemoryAllocator_realloc_spec_counterexample:
  "sint (18446744073709551615::int64_t) = - 1 \<and>
   MmapMemoryAllocator_realloc example_world 100 18446744073709551615 4 = None"
  by (simp add: MmapMemoryAllocator_realloc_def example_alloc memcpy_def int64_min_def)

text \<open>
  Claim C4. Let \<open>alloc(numMembers * sizeEach)\<close> return \<open>q\<close>. Then
  \<open>MmapMemoryAllocator::allocZeroFilled(numMembers, sizeEach)\<close> returns \<open>q\<close> and makes
  the same request as that \<open>alloc\<close>. On success the call is that \<open>alloc\<close> followed
  by \<open>memset\<close> over the block: every byte of the \<open>numMembers * sizeEach\<close> bytes of the
  block is 0 and no other byte changes. On failure the result is null and no memory is
  written.
\<close>

theorem MmapMemoryAllocator_allocZeroFilled_spec:
  assumes "MmapMemoryAllocator_alloc w (numMembers * sizeEach) = (q, w1)"
  shows "fst (MmapMemoryAllocator_allocZeroFilled w numMembers sizeEach) = q \<and>
     calls (snd (MmapMemoryAllocator_allocZeroFilled w numMembers sizeEach)) = calls w1 \<and>
     answers (snd (MmapMemoryAllocator_allocZeroFilled w numMembers sizeEach)) = answers w1 \<and>
     (q \<noteq> 0 \<longrightarrow>
        MmapMemoryAllocator_allocZeroFilled w numMembers sizeEach
          = (q, memset w1 q 0 (unat (numMembers * sizeEach))) \<and>
        (\<forall>a. mem (snd (MmapMemoryAllocator_allocZeroFilled w numMembers sizeEach)) a =
              (if q \<le> a \<and> a < q + unat (numMembers * sizeEach) then 0 else mem w a))) \<and>
     (q = 0 \<longrightarrow>
        MmapMemoryAllocator_allocZeroFilled w numMembers sizeEach = (0, w1) \<and>
        mem w1 = mem w)"
proof -
  from assms have a: "allocateBytes w (numMembers * sizeEach) = (q, w1)"
    by (simp add: MmapMemoryAllocator_alloc_def)
  note c = allocateBytes_cases [OF a]
  show ?thesis
    using assms c
    by (simp add: MmapMemoryAllocator_allocZeroFilled_def memset_def Let_def)
qed

theorem MmapMemoryAllocator_allocZeroFilled_spec_witness:
  "fst (MmapMemoryAllocator_allocZeroFilled example_world 2 3) = 200 \<and>
   mem (snd (MmapMemoryAllocator_allocZeroFilled example_world 2 3)) 199 = 1 \<and>
   mem (snd (MmapMemoryAllocator_allocZeroFilled example_world 2 3)) 200 = 0 \<and>
   mem (snd (MmapMemoryAllocator_allocZeroFilled example_world 2 3)) 205 = 0 \<and>
   mem (snd (MmapMemoryAllocator_allocZeroFilled example_world 2 3)) 206 = 1 \<and>
   MmapMemoryAllocator_allocZeroFilled exhausted_world 2 3
     = (0, exhausted_world\<lparr>calls := [AllocateBytes 6 0]\<rparr>)"
  using MmapMemoryAllocator_allocZeroFilled_spec [OF example_alloc, of 2 3]
    MmapMemoryAllocator_allocZeroFilled_spec [OF exhausted_alloc, of 2 3]
  by (simp add: example_world_def memset_def)

text \<open>
  Claim C5. On the mapping-backed allocator every call of \<open>allocAligned\<close> and of
  \<open>reallocAligned\<close> raises the unsupported-operation error that names the operation.
  It is raised, not returned: the outcome is never a result, and in particular never
  the null result by which an allocation that fails is reported.
\<close>

theorem MmapMemoryAllocator_aligned_unsupported:
  "MmapMemoryAllocator_allocAligned w alignment n =
      Inl (Unsupported ''allocAligned is not supported for MmapMemoryAllocator.'') \<and>
   MmapMemoryAllocator_reallocAligned w p alignment n newSize =
      Inl (Unsupported ''reallocAligned is not supported for MmapMemoryAllocator.'') \<and>
   MmapMemoryAllocator_allocAligned w alignment n \<noteq> Inr r \<and>
   MmapMemoryAllocator_reallocAligned w p alignment n newSize \<noteq> Inr r \<and>
   fst (MmapMemoryAllocator_alloc exhausted_world n) = 0"
  by (simp add: MmapMemoryAllocator_allocAligned_def MmapMemoryAllocator_reallocAligned_def
      exhausted_alloc)

text \<open>
  Claim C6, as amended. The heap allocator's \<open>reallocAligned(ptr, alignment, size,
  newSize)\<close> with \<open>newSize \<le> 0\<close> returns null and leaves everything as it was: no
  request is made and no memory is read or written, so \<open>ptr\<close> is not freed. With
  \<open>newSize > 0\<close> it requests an aligned block of \<open>newSize\<close> bytes. Given the block, a
  \<open>ptr\<close> that is not null and a size that is not negative, it copies the first
  \<open>min(size, newSize)\<close> bytes of \<open>ptr\<close> into the block, then frees \<open>ptr\<close>, and returns the
  block. Should the request fail, the result is null and \<open>ptr\<close> is neither read nor
  freed.
\<close>

theorem MemoryAllocator_reallocAligned_spec:
  "(sint newSize \<le> 0 \<longrightarrow>
      MemoryAllocator_reallocAligned w p alignment n newSize = Some (0, w)) \<and>
   (0 < sint newSize \<and> aligned_alloc w alignment newSize = (block, w1) \<and> block \<noteq> 0 \<and>
    p \<noteq> 0 \<and> 0 \<le> sint n \<longrightarrow>
      (\<exists>w'. MemoryAllocator_reallocAligned w p alignment n newSize = Some (block, w') \<and>
         calls w' = calls w @ [AlignedAlloc alignment newSize block,
                               Copy block p (nat (min (sint n) (sint newSize))),
                               Free p] \<and>
         (\<forall>a. mem w' a =
               (if block \<le> a \<and> a < block + nat (min (sint n) (sint newSize))
                then mem w (p + (a - block)) else mem w a)))) \<and>
   (0 < sint newSize \<and> aligned_alloc w alignment newSize = (0, w1) \<longrightarrow>
      MemoryAllocator_reallocAligned w p alignment n newSize = Some (0, w1) \<and>
      mem w1 = mem w \<and> calls w1 = calls w @ [AlignedAlloc alignment newSize 0])"
proof -
  have copy: "\<exists>w'. MemoryAllocator_reallocAligned w p alignment n newSize = Some (block, w') \<and>
         calls w' = calls w @ [AlignedAlloc alignment newSize block,
                               Copy block p (nat (min (sint n) (sint newSize))),
                               Free p] \<and>
         (\<forall>a. mem w' a =
               (if block \<le> a \<and> a < block + nat (min (sint n) (sint newSize))
                then mem w (p + (a - block)) else mem w a))"
    if h: "0 < sint newSize" "aligned_alloc w alignment newSize = (block, w1)" "block \<noteq> 0"
      "p \<noteq> 0" "0 \<le> sint n"
  proof -
    from h(1) have nn: "0 \<le> sint newSize" by simp
    note l = int64_min_length [OF h(5) nn]
    from l(2) have nl: "\<not> (2::nat) ^ 63 \<le> unat (int64_min n newSize)" by simp
    note c = aligned_alloc_cases [OF h(2)]
    from h(1) have pos: "\<not> sint newSize \<le> 0" by simp
    show ?thesis
      using h(2,3,4) c nl pos
      by (simp add: MemoryAllocator_reallocAligned_def std_free_def memcpy_def l(1))
  qed
  have fail: "MemoryAllocator_reallocAligned w p alignment n newSize = Some (0, w1) \<and>
      mem w1 = mem w \<and> calls w1 = calls w @ [AlignedAlloc alignment newSize 0]"
    if h: "0 < sint newSize" "aligned_alloc w alignment newSize = (0, w1)"
  proof -
    from h(1) have pos: "\<not> sint newSize \<le> 0" by simp
    from aligned_alloc_cases [OF h(2)] h(2) pos show ?thesis
      by (simp add: MemoryAllocator_reallocAligned_def)
  qed
  have none: "MemoryAllocator_reallocAligned w p alignment n newSize = Some (0, w)"
    if "sint newSize \<le> 0"
    using that by (simp add: MemoryAllocator_reallocAligned_def)
  from copy fail none show ?thesis by blast
qed

theorem MemoryAllocator_reallocAligned_spec_witness:
  "MemoryAllocator_reallocAligned example_world 100 16 2 0 = Some (0, example_world) \<and>
   map_option fst (MemoryAllocator_reallocAligned example_world 100 16 2 4) = Some 200 \<and>
   map_option (\<lambda>r. calls (snd r)) (MemoryAllocator_reallocAligned example_world 100 16 2 4)
     = Some [AlignedAlloc 16 4 200, Copy 200 100 2, Free 100] \<and>
   map_option (\<lambda>r. map (mem (snd r)) [200, 201, 202])
       (MemoryAllocator_reallocAligned example_world 100 16 2 4) = Some [7, 9, 1] \<and>
   map_option (\<lambda>r. calls (snd r)) (MemoryAllocator_reallocAligned example_world 100 16 4 1)
     = Some [AlignedAlloc 16 1 200, Copy 200 100 1, Free 100] \<and>
   map_option (\<lambda>r. map (mem (snd r)) [200, 201, 202])
       (MemoryAllocator_reallocAligned example_world 100 16 4 1) = Some [7, 1, 1] \<and>
   MemoryAllocator_reallocAligned exhausted_world 100 16 2 4
     = Some (0, exhausted_world\<lparr>calls := [AlignedAlloc 16 4 0]\<rparr>)"
proof -
  have neg: "MemoryAllocator_reallocAligned example_world 100 16 2 0 = Some (0, example_world)"
    using
      MemoryAllocator_reallocAligned_spec [where newSize = 0 and w = example_world
        and p = 100 and alignment = 16 and n = 2, THEN conjunct1]
    by simp
  have grow: "0 < sint (4::int64_t) \<and> aligned_alloc example_world 16 4
        = (200, example_world\<lparr>calls := [AlignedAlloc 16 4 200], answers := []\<rparr>) \<and>
      (200::ptr) \<noteq> 0 \<and> (100::ptr) \<noteq> 0 \<and> 0 \<le> sint (2::int64_t)"
    by (simp add: example_aligned_alloc)
  have shrink: "0 < sint (1::int64_t) \<and> aligned_alloc example_world 16 1
        = (200, example_world\<lparr>calls := [AlignedAlloc 16 1 200], answers := []\<rparr>) \<and>
      (200::ptr) \<noteq> 0 \<and> (100::ptr) \<noteq> 0 \<and> 0 \<le> sint (4::int64_t)"
    by (simp add: example_aligned_alloc)
  from grow
    MemoryAllocator_reallocAligned_spec [where newSize = 4 and w = example_world
      and p = 100 and alignment = 16 and n = 2 and block = 200
      and ?w1.0 = "example_world\<lparr>calls := [AlignedAlloc 16 4 200], answers := []\<rparr>"]
  obtain w' where g: "MemoryAllocator_reallocAligned example_world 100 16 2 4 = Some (200, w')"
    "calls w' = calls example_world @ [AlignedAlloc 16 4 200,
        Copy 200 100 (nat (min (sint (2::int64_t)) (sint (4::int64_t)))), Free 100]"
    "\<forall>a. mem w' a = (if 200 \<le> a \<and> a < 200 + nat (min (sint (2::int64_t)) (sint (4::int64_t)))
                  then mem example_world (100 + (a - 200)) else mem example_world a)"
    by blast
  from shrink
    MemoryAllocator_reallocAligned_spec [where newSize = 1 and w = example_world
      and p = 100 and alignment = 16 and n = 4 and block = 200
      and ?w1.0 = "example_world\<lparr>calls := [AlignedAlloc 16 1 200], answers := []\<rparr>"]
  obtain v' where s: "MemoryAllocator_reallocAligned example_world 100 16 4 1 = Some (200, v')"
    "calls v' = calls example_world @ [AlignedAlloc 16 1 200,
        Copy 200 100 (nat (min (sint (4::int64_t)) (sint (1::int64_t)))), Free 100]"
    "\<forall>a. mem v' a = (if 200 \<le> a \<and> a < 200 + nat (min (sint (4::int64_t)) (sint (1::int64_t)))
                  then mem example_world (100 + (a - 200)) else mem example_world a)"
    by blast
  have fail: "MemoryAllocator_reallocAligned exhausted_world 100 16 2 4
      = Some (0, exhausted_world\<lparr>calls := [AlignedAlloc 16 4 0]\<rparr>)"
    using
      MemoryAllocator_reallocAligned_spec [where newSize = 4 and w = exhausted_world
        and p = 100 and alignment = 16 and n = 2
        and ?w1.0 = "exhausted_world\<lparr>calls := [AlignedAlloc 16 4 0]\<rparr>"]
    by (simp add: exhausted_aligned_alloc)
  from neg g s fail show ?thesis
    by (simp add: example_world_def)
qed

text \<open>
  For every \<open>ptr\<close> and size, as the claim is stated, the call has no defined outcome
  in two cases with \<open>newSize > 0\<close> and the block obtained: when \<open>ptr\<close> is null, the
  copy reading from the null pointer, and when the size is negative, here \<open>-1\<close> (the
  word \<open>2 ^ 64 - 1\<close>), the copy being \<open>2 ^ 64 - 1\<close> bytes long.
\<close>

theorem MemoryAllocator_reallocAligned_spec_counterexample:
  "MemoryAllocator_reallocAligned example_world 0 16 8 16 = None \<and>
   sint (18446744073709551615::int64_t) = - 1 \<and>
   MemoryAllocator_reallocAligned example_world 100 16 18446744073709551615 4 = None"
  by (simp add: MemoryAllocator_reallocAligned_def example_aligned_alloc memcpy_def
      int64_min_def)

section \<open>Properties of the pool tree\<close>

lemma lookup_Some_less: "lookup h r = Some p \<Longrightarrow> r < length h"
  by (simp add: lookup_def split: if_splits)

lemma lookup_append: "lookup (h @ [x]) r = (if r = length h then x else lookup h r)"
  by (simp add: lookup_def nth_append)

lemma lookup_update: "lookup (h[r := x]) s = (if s = r \<and> r < length h then x else lookup h s)"
  by (simp add: lookup_def)

lemma modify_Some: "lookup h r = Some p \<Longrightarrow> modify h r f = h[r := Some (f p)]"
  by (simp add: modify_def)

lemma set_map_filter: "set (List.map_filter f xs) = {y. \<exists>x \<in> set xs. f x = Some y}"
  by (induction xs) (auto simp: List.map_filter_simps split: option.splits)

lemma Suc_length_remove1: "x \<in> set xs \<Longrightarrow> Suc (length (remove1 x xs)) = length xs"
  using length_pos_if_in_set [of x xs] by (simp add: length_remove1)

text \<open>What a successful \<open>addChild\<close> builds: the child and the updated parent.\<close>

lemma addChild_success:
  assumes "lookup h self = Some P" and "name \<notin> set (child_names h self)"
  shows "addChild h self name cap =
     (Inr (length h),
      (h @ [Some \<lparr>name_m = name, parent_m = Some self, children_m = [], cap_m = cap,
                  capped_m = capped_m P,
                  usageTracker_m = map_option MemoryUsageTracker_addChild (usageTracker_m P)\<rparr>])
        [self := Some (P\<lparr>children_m := children_m P @ [length h]\<rparr>)])"
proof -
  from assms(1) have lt: "self < length h" by (rule lookup_Some_less)
  then have ne: "self \<noteq> length h" by simp
  from assms(1) lt have nth: "h ! self = Some P" by (simp add: lookup_def)
  show ?thesis
    using assms lt ne nth
    by (cases "usageTracker_m P")
      (simp_all add: addChild_def genChild_def make_shared_def MemoryPool_ctor_def
        isMemoryCapped_def capMemoryAllocation_def getMemoryUsageTracker_def
        setMemoryUsageTracker_def modify_def lookup_append lookup_update Let_def
        nth_append list_update_append)
qed

lemma addChild_failure:
  assumes "name \<in> set (child_names h self)"
  shows "addChild h self name cap = (Inl (CheckFailed ''child name already exists''), h)"
  using assms by (simp add: addChild_def genChild_def)

lemma addChild_Inr:
  assumes "addChild h self name cap = (Inr c, h1)"
  shows "name \<notin> set (child_names h self)"
  using assms by (auto simp: addChild_failure)

text \<open>
  Claim C7. Destroying a pool that still has children fails the check
  \<open>children_.empty()\<close> and changes nothing. A pool without children is destroyed: a
  root pool just goes away, and a pool registered with its parent is first removed from
  the parent's child list. \<open>dropChild\<close> fails the check \<open>iter != children_.end()\<close>,
  changing nothing, when the child is not in the list; otherwise it removes that one
  entry and nothing else, so the list is one shorter and, entries being distinct, loses
  exactly that child. A pool is registered with its parent when it is in the parent's
  child list, which is how \<open>addChild\<close> leaves every pool it creates.
\<close>

theorem MemoryPool_dtor_dropChild:
  assumes "lookup h self = Some P" and "lookup h q = Some Q"
  shows "(children_m P \<noteq> [] \<longrightarrow>
            MemoryPool_dtor h self = (Inl (CheckFailed ''children_.empty()''), h)) \<and>
     (children_m P = [] \<and> parent_m P = None \<longrightarrow>
            MemoryPool_dtor h self = (Inr (), destroy h self)) \<and>
     (children_m P = [] \<and> parent_m P = Some q \<and> self \<in> set (children_m Q) \<longrightarrow>
            MemoryPool_dtor h self =
              (Inr (), destroy (h[q := Some (Q\<lparr>children_m := remove1 self (children_m Q)\<rparr>)]) self) \<and>
            lookup (snd (MemoryPool_dtor h self)) self = None \<and>
            children_of (snd (MemoryPool_dtor h self)) q = remove1 self (children_m Q)) \<and>
     (c \<notin> set (children_m Q) \<longrightarrow>
            dropChild h q c = (Inl (CheckFailed ''iter != children_.end()''), h)) \<and>
     (c \<in> set (children_m Q) \<longrightarrow>
            dropChild h q c = (Inr (), h[q := Some (Q\<lparr>children_m := remove1 c (children_m Q)\<rparr>)]) \<and>
            children_of (snd (dropChild h q c)) q = remove1 c (children_m Q) \<and>
            Suc (length (remove1 c (children_m Q))) = length (children_m Q) \<and>
            (distinct (children_m Q) \<longrightarrow>
               set (remove1 c (children_m Q)) = set (children_m Q) - {c}))"
proof -
  from assms have lt: "self < length h" "q < length h" by (auto dest: lookup_Some_less)
  have drop_in: "dropChild h q x =
      (Inr (), h[q := Some (Q\<lparr>children_m := remove1 x (children_m Q)\<rparr>)])"
    if "x \<in> set (children_m Q)" for x
    using that assms(2) by (simp add: dropChild_def children_of_def modify_Some)
  have dtor_empty: ?thesis if "children_m P \<noteq> []"
    using that assms lt
    by (auto simp: MemoryPool_dtor_def children_of_def dropChild_def modify_Some lookup_update
        Suc_length_remove1 split: option.splits)
  have dtor_ok: ?thesis if e: "children_m P = []"
  proof -
    have ne: "self \<noteq> q" if "self \<in> set (children_m Q)"
      using that e assms by auto
    show ?thesis
      using e assms lt ne
      by (auto simp: MemoryPool_dtor_def children_of_def parent_of_def drop_in destroy_def
          lookup_update dropChild_def Suc_length_remove1 modify_Some)
  qed
  from dtor_empty dtor_ok show ?thesis by blast
qed

lemma lookup_family:
  "lookup family 0 = Some (root_pool\<lparr>children_m := [1]\<rparr>)"
  "lookup family 1 = Some ((MemoryPool_ctor ''a'' (Some 0))\<lparr>cap_m := 10\<rparr>)"
  "lookup family (Suc 0) = Some ((MemoryPool_ctor ''a'' (Some 0))\<lparr>cap_m := 10\<rparr>)"
  by (simp_all add: family_def lookup_def)

lemma lookup_root: "lookup [Some p] 0 = Some p"
  by (simp add: lookup_def)

lemma child_names_lone: "children_m p = [] \<Longrightarrow> child_names [Some p] 0 = []"
  by (simp add: child_names_def children_of_def lookup_root List.map_filter_simps)

lemma addChild_lone:
  assumes "children_m p = []"
  shows "addChild [Some p] 0 name cap =
     (Inr 1,
      [Some (p\<lparr>children_m := [1]\<rparr>),
       Some \<lparr>name_m = name, parent_m = Some 0, children_m = [], cap_m = cap,
             capped_m = capped_m p,
             usageTracker_m = map_option MemoryUsageTracker_addChild (usageTracker_m p)\<rparr>])"
  using addChild_success [OF lookup_root [of p], of name cap] assms
  by (simp add: child_names_lone)

lemma addChild_root: "addChild [Some root_pool] 0 ''a'' 10 = (Inr 1, family)"
proof -
  have "children_m root_pool = []" by (simp add: root_pool_def MemoryPool_ctor_def)
  from addChild_lone [OF this, of "''a''" 10] show ?thesis
    by (simp add: family_def root_pool_def MemoryPool_ctor_def)
qed

theorem MemoryPool_dtor_dropChild_witness:
  "MemoryPool_dtor family 0 = (Inl (CheckFailed ''children_.empty()''), family) \<and>
   MemoryPool_dtor [Some root_pool] 0 = (Inr (), [None]) \<and>
   MemoryPool_dtor family 1 = (Inr (), [Some root_pool, None]) \<and>
   dropChild family 0 5 = (Inl (CheckFailed ''iter != children_.end()''), family) \<and>
   dropChild family 0 1
     = (Inr (), [Some root_pool, Some ((MemoryPool_ctor ''a'' (Some 0))\<lparr>cap_m := 10\<rparr>)])"
proof -
  note parent = MemoryPool_dtor_dropChild [OF lookup_family(1) lookup_family(1)]
  note child = MemoryPool_dtor_dropChild [OF lookup_family(2) lookup_family(1)]
  note lone = MemoryPool_dtor_dropChild [OF lookup_root [of root_pool] lookup_root [of root_pool]]
  have a: "MemoryPool_dtor family 0 = (Inl (CheckFailed ''children_.empty()''), family)"
    using parent [of 5] by simp
  have b: "MemoryPool_dtor [Some root_pool] 0 = (Inr (), [None])"
    using lone [of 5] by (simp add: root_pool_def MemoryPool_ctor_def destroy_def)
  have c: "MemoryPool_dtor family 1 = (Inr (), [Some root_pool, None])"
    using child [of 5]
    by (simp add: root_pool_def MemoryPool_ctor_def destroy_def family_def)
  have d: "dropChild family 0 5 = (Inl (CheckFailed ''iter != children_.end()''), family)"
    using parent [of 5] by simp
  have e: "dropChild family 0 1
     = (Inr (), [Some root_pool, Some ((MemoryPool_ctor ''a'' (Some 0))\<lparr>cap_m := 10\<rparr>)])"
    using parent [of 1] by (simp add: family_def root_pool_def MemoryPool_ctor_def)
  from a b c d e show ?thesis by simp
qed

text \<open>
  Claim C8. With \<open>genChild\<close> rejecting a name that a child of the parent already
  bears, \<open>addChild\<close> under such a name fails and the heap after the call is the heap
  before it, the parent's child list included. In particular, when \<open>addChild\<close> succeeds
  the parent holds the new child as one more entry, and a second \<open>addChild\<close> under the
  same name fails and leaves that heap unchanged.
\<close>

theorem addChild_duplicate_name:
  assumes "lookup h self = Some P"
  shows "(name \<in> set (child_names h self) \<longrightarrow>
            addChild h self name cap = (Inl (CheckFailed ''child name already exists''), h)) \<and>
     (name \<notin> set (child_names h self) \<longrightarrow>
        (\<exists>c h1. addChild h self name cap = (Inr c, h1) \<and>
           children_of h1 self = children_of h self @ [c] \<and>
           addChild h1 self name cap' = (Inl (CheckFailed ''child name already exists''), h1)))"
proof (intro conjI impI)
  assume "name \<in> set (child_names h self)"
  then show "addChild h self name cap = (Inl (CheckFailed ''child name already exists''), h)"
    by (rule addChild_failure)
next
  assume fresh: "name \<notin> set (child_names h self)"
  define C where "C = \<lparr>name_m = name, parent_m = Some self, children_m = [], cap_m = cap,
      capped_m = capped_m P,
      usageTracker_m = map_option MemoryUsageTracker_addChild (usageTracker_m P)\<rparr>"
  define h1 where "h1 = (h @ [Some C])[self := Some (P\<lparr>children_m := children_m P @ [length h]\<rparr>)]"
  from assms have lt: "self < length h" by (rule lookup_Some_less)
  have r: "addChild h self name cap = (Inr (length h), h1)"
    unfolding h1_def C_def by (rule addChild_success [OF assms fresh])
  have ch: "children_of h1 self = children_of h self @ [length h]"
    using assms lt by (simp add: children_of_def h1_def lookup_update)
  have "lookup h1 (length h) = Some C"
    using lt by (simp add: h1_def lookup_update lookup_append)
  then have "map_option name_m (lookup h1 (length h)) = Some name"
    by (simp add: C_def)
  moreover have "length h \<in> set (children_of h1 self)" by (simp add: ch)
  ultimately have "name \<in> set (child_names h1 self)"
    unfolding child_names_def set_map_filter by blast
  then have "addChild h1 self name cap' = (Inl (CheckFailed ''child name already exists''), h1)"
    by (rule addChild_failure)
  with r ch show "\<exists>c h1. addChild h self name cap = (Inr c, h1) \<and>
           children_of h1 self = children_of h self @ [c] \<and>
           addChild h1 self name cap' = (Inl (CheckFailed ''child name already exists''), h1)"
    by blast
qed

theorem addChild_duplicate_name_witness:
  "addChild [Some root_pool] 0 ''a'' 10 = (Inr 1, family) \<and>
   addChild family 0 ''a'' 11 = (Inl (CheckFailed ''child name already exists''), family) \<and>
   children_of family 0 = [1]"
proof -
  have n: "child_names family 0 = [''a'']"
    by (simp add: child_names_def children_of_def lookup_family List.map_filter_simps
        MemoryPool_ctor_def)
  note a = addChild_root
  have b: "addChild family 0 ''a'' 11
      = (Inl (CheckFailed ''child name already exists''), family)"
    using addChild_duplicate_name [OF lookup_family(1), of "''a''" 11] by (simp add: n)
  have c: "children_of family 0 = [1]"
    by (simp add: children_of_def lookup_family)
  from a b c show ?thesis by simp
qed

text \<open>
  Claim C9. With the capped flag a flag of the single pool, a child created by
  \<open>addChild\<close> is capped right after its creation exactly when the parent is capped at
  the call: it is capped if the parent is. Capping the parent afterwards caps the
  parent and leaves the capped status of the child as it was.
\<close>

theorem addChild_capped_inheritance:
  assumes "lookup h self = Some P" and "addChild h self name cap = (Inr c, h1)"
  shows "(capped_m P \<longrightarrow> isMemoryCapped h1 c) \<and>
     isMemoryCapped h1 c = capped_m P \<and>
     isMemoryCapped (capMemoryAllocation h1 self) self \<and>
     isMemoryCapped (capMemoryAllocation h1 self) c = isMemoryCapped h1 c"
proof -
  from assms(1) have lt: "self < length h" by (rule lookup_Some_less)
  from assms(2) have "name \<notin> set (child_names h self)" by (rule addChild_Inr)
  from addChild_success [OF assms(1) this, of cap] assms(2)
  have c: "c = length h"
    and h1: "h1 = (h @ [Some \<lparr>name_m = name, parent_m = Some self, children_m = [],
                  cap_m = cap, capped_m = capped_m P,
                  usageTracker_m = map_option MemoryUsageTracker_addChild (usageTracker_m P)\<rparr>])
        [self := Some (P\<lparr>children_m := children_m P @ [length h]\<rparr>)]"
    by simp_all
  from lt show ?thesis
    by (simp add: c h1 isMemoryCapped_def capMemoryAllocation_def modify_def
        lookup_update lookup_append)
qed

theorem addChild_capped_inheritance_witness:
  "isMemoryCapped (snd (addChild [Some (root_pool\<lparr>capped_m := True\<rparr>)] 0 ''a'' 10)) 1 \<and>
   \<not> isMemoryCapped family 1 \<and>
   isMemoryCapped (capMemoryAllocation family 0) 0 \<and>
   \<not> isMemoryCapped (capMemoryAllocation family 0) 1"
proof -
  note a = addChild_root
  have "children_m (root_pool\<lparr>capped_m := True\<rparr>) = []"
    by (simp add: root_pool_def MemoryPool_ctor_def)
  from addChild_lone [OF this, of "''a''" 10]
  obtain h1 where b: "addChild [Some (root_pool\<lparr>capped_m := True\<rparr>)] 0 ''a'' 10 = (Inr 1, h1)"
    by blast
  from addChild_capped_inheritance [OF lookup_root b] b
    addChild_capped_inheritance [OF lookup_root a]
  show ?thesis by (simp add: root_pool_def MemoryPool_ctor_def)
qed

end
